theory Spec2Isabelle
  imports Complex_Main "HOL-Library.Multiset"
begin

section \<open>Data model\<close>

text \<open>
  The layout engine of \<^verbatim>\<open>src/pdf/main_3.py\<close> works on OCR items, Python dictionaries
  \<^verbatim>\<open>{'text': ..., 'box': [x0, y0, x1, y1]}\<close>. A box is a record of its four coordinates and
  an item a record of its text and box. Python numbers (the integer pixel coordinates
  and the floats computed from them) are modelled as exact rationals.
\<close>

record box =
  x0 :: rat
  y0 :: rat
  x1 :: rat
  y1 :: rat

record item =
  i_text :: string
  i_box :: box

datatype error = ZeroDivisionError

section \<open>GeometryUtils\<close>

text \<open>
  \<^verbatim>\<open>merge_boxes\<close>: the empty list gives \<^verbatim>\<open>[0,0,0,0]\<close>; otherwise Python's \<^verbatim>\<open>min\<close> and
  \<^verbatim>\<open>max\<close> run over each coordinate, a left-to-right scan that keeps the best value so far.
\<close>

definition merge_boxes :: "box list \<Rightarrow> box" where
  "merge_boxes boxes =
     (case boxes of
        [] \<Rightarrow> \<lparr>x0 = 0, y0 = 0, x1 = 0, y1 = 0\<rparr>
      | b # bs \<Rightarrow>
          \<lparr>x0 = fold min (map x0 bs) (x0 b), y0 = fold min (map y0 bs) (y0 b),
           x1 = fold max (map x1 bs) (x1 b), y1 = fold max (map y1 bs) (y1 b)\<rparr>)"

section \<open>ColumnDetector\<close>

definition bins :: int where
  "bins = 400"

text \<open>Python's \<^verbatim>\<open>int(x)\<close> on a float truncates towards zero.\<close>

definition py_int :: "rat \<Rightarrow> int" where
  "py_int q = (if q < 0 then \<lceil>q\<rceil> else \<lfloor>q\<rfloor>)"

text \<open>
  A slice bound of \<^verbatim>\<open>density_map[start:end]\<close>: a negative bound counts from the end of the
  array, and the result is clamped to the array.
\<close>

definition slice_index :: "int \<Rightarrow> int \<Rightarrow> int" where
  "slice_index n i = (if i < 0 then max 0 (i + n) else min i n)"

text \<open>\<^verbatim>\<open>density_map[start:end] = 1\<close>; an occupied bin is \<open>True\<close>.\<close>

definition slice_assign :: "bool list \<Rightarrow> int \<Rightarrow> int \<Rightarrow> bool list" where
  "slice_assign density_map start stop =
     (let n = int (length density_map);
          s = slice_index n start;
          e = slice_index n stop
      in map (\<lambda>i. if s \<le> int i \<and> int i < e then True else density_map ! i)
           [0..<length density_map])"

definition mark_box :: "rat \<Rightarrow> box \<Rightarrow> bool list \<Rightarrow> bool list" where
  "mark_box page_width b density_map =
     (let start = max 0 (py_int ((x0 b / page_width) * of_int bins));
          stop = min bins (py_int ((x1 b / page_width) * of_int bins))
      in slice_assign density_map start stop)"

definition build_histogram :: "box list \<Rightarrow> rat \<Rightarrow> bool list" where
  "build_histogram valid_boxes page_width =
     fold (mark_box page_width) valid_boxes (replicate (nat bins) False)"

definition search_start :: int where
  "search_start = py_int (of_int bins * (20 / 100))"

definition search_end :: int where
  "search_end = py_int (of_int bins * (80 / 100))"

text \<open>
  One iteration of the gap search: the state is \<^verbatim>\<open>current_gap_start\<close> (\<open>-1\<close> when no gap
  is open) and the list \<^verbatim>\<open>gaps\<close>.
\<close>

fun scan_bin :: "bool list \<Rightarrow> int \<Rightarrow> int \<times> (int \<times> int) list \<Rightarrow> int \<times> (int \<times> int) list" where
  "scan_bin density_map i (current_gap_start, gaps) =
     (if \<not> density_map ! nat i then
        (if current_gap_start = -1 then (i, gaps) else (current_gap_start, gaps))
      else
        (if current_gap_start \<noteq> -1 then (-1, gaps @ [(current_gap_start, i)])
         else (current_gap_start, gaps)))"

definition find_gaps :: "bool list \<Rightarrow> (int \<times> int) list" where
  "find_gaps density_map =
     (case fold (scan_bin density_map) [search_start..search_end - 1] (-1, []) of
        (current_gap_start, gaps) \<Rightarrow>
          if current_gap_start \<noteq> -1 then gaps @ [(current_gap_start, search_end)] else gaps)"

text \<open>Python's \<^verbatim>\<open>max(xs, key=...)\<close> keeps the first element with the largest key.\<close>

fun max_by :: "('a \<Rightarrow> int) \<Rightarrow> 'a \<Rightarrow> 'a list \<Rightarrow> 'a" where
  "max_by key best [] = best"
| "max_by key best (g # gs) = max_by key (if key g > key best then g else best) gs"

definition gap_width :: "int \<times> int \<Rightarrow> int" where
  "gap_width g = snd g - fst g"

text \<open>
  The filtering pass of \<^verbatim>\<open>find_split_x\<close>: boxes in the top 15% of the page and boxes
  wider than 85% of the page are skipped; if nothing is left, all boxes are used.
\<close>

definition valid_boxes :: "box list \<Rightarrow> rat \<Rightarrow> rat \<Rightarrow> box list" where
  "valid_boxes boxes page_width page_height =
     (let filtered = filter (\<lambda>b. \<not> y0 b < page_height * (15 / 100)
                                \<and> \<not> x1 b - x0 b > page_width * (85 / 100)) boxes
      in if filtered = [] then boxes else filtered)"

text \<open>
  \<^verbatim>\<open>find_split_x\<close>. The division \<^verbatim>\<open>box[0] / page_width\<close> raises for a zero page width as
  soon as the histogram loop runs once.
\<close>

definition find_split_x :: "box list \<Rightarrow> rat \<Rightarrow> rat \<Rightarrow> error + rat option" where
  "find_split_x boxes page_width page_height =
     (let valid = valid_boxes boxes page_width page_height
      in if valid \<noteq> [] \<and> page_width = 0 then Inl ZeroDivisionError
         else
           (case find_gaps (build_histogram valid page_width) of
              [] \<Rightarrow> Inr None
            | g # gs \<Rightarrow>
               (let widest_gap = max_by gap_width g gs;
                    gap_width_bins = snd widest_gap - fst widest_gap
                in if of_int gap_width_bins > (of_int bins :: rat) * (2 / 100)
                   then Inr (Some (((of_int (fst widest_gap) + of_int gap_width_bins / 2)
                                     / of_int bins) * page_width))
                   else Inr None)))"

section \<open>LayoutEngine\<close>

text \<open>\<^verbatim>\<open>join_char.join(texts)\<close>.\<close>

fun join :: "string \<Rightarrow> string list \<Rightarrow> string" where
  "join sep [] = []"
| "join sep [t] = t"
| "join sep (t # u # ts) = t @ sep @ join sep (u # ts)"

text \<open>
  \<^verbatim>\<open>_merge_items\<close>: the union box of the items, then the items sorted (stably) by the left
  edge of their box, and their texts joined.
\<close>

definition merge_items :: "item list \<Rightarrow> string \<Rightarrow> item" where
  "merge_items items join_char =
     \<lparr>i_text = join join_char (map i_text (sort_key (\<lambda>x. x0 (i_box x)) items)),
      i_box = merge_boxes (map i_box items)\<rparr>"

text \<open>Python's truth value of \<^verbatim>\<open>split_x\<close>: \<^verbatim>\<open>None\<close> and \<^verbatim>\<open>0.0\<close> are false.\<close>

definition truthy :: "rat option \<Rightarrow> bool" where
  "truthy split_x = (case split_x of None \<Rightarrow> False | Some s \<Rightarrow> s \<noteq> 0)"

subsection \<open>Lines\<close>

definition overlap_ratio :: "box \<Rightarrow> box \<Rightarrow> rat" where
  "overlap_ratio last_box item_box =
     (let min_y = max (y0 last_box) (y0 item_box);
          max_y = min (y1 last_box) (y1 item_box);
          overlap_h = max 0 (max_y - min_y);
          min_h = min (y1 last_box - y0 last_box) (y1 item_box - y0 item_box)
      in if min_h > 0 then overlap_h / min_h else 0)"

definition line_crosses_barrier :: "rat option \<Rightarrow> box \<Rightarrow> box \<Rightarrow> bool" where
  "line_crosses_barrier split_x last_box item_box =
     (if truthy split_x then
        (let s = the split_x;
             buff = 5;
             is_left_last = x1 last_box < s + buff;
             is_right_item = x0 item_box > s - buff;
             is_right_last = x0 last_box > s - buff;
             is_left_item = x1 item_box < s + buff
         in (is_left_last \<and> is_right_item) \<or> (is_right_last \<and> is_left_item))
      else False)"

definition line_merge :: "rat option \<Rightarrow> item list \<Rightarrow> item \<Rightarrow> bool" where
  "line_merge split_x current_line item =
     (let lst = last current_line;
          h_gap = x0 (i_box item) - x1 (i_box lst)
      in overlap_ratio (i_box lst) (i_box item) > 4 / 10 \<and> h_gap < 50
         \<and> \<not> line_crosses_barrier split_x (i_box lst) (i_box item))"

text \<open>The loop over the sorted items; the state is \<^verbatim>\<open>current_line\<close> and \<^verbatim>\<open>lines\<close>.\<close>

fun lines_loop :: "rat option \<Rightarrow> item list \<Rightarrow> item list \<Rightarrow> item list \<Rightarrow> item list \<times> item list" where
  "lines_loop split_x [] current_line lines = (current_line, lines)"
| "lines_loop split_x (item # rest) current_line lines =
     (if current_line = [] then lines_loop split_x rest [item] lines
      else if line_merge split_x current_line item
        then lines_loop split_x rest (current_line @ [item]) lines
      else lines_loop split_x rest [item] (lines @ [merge_items current_line '' '']))"

definition cluster_lines :: "item list \<Rightarrow> rat option \<Rightarrow> item list" where
  "cluster_lines raw_items split_x =
     (case lines_loop split_x (sort_key (\<lambda>x. y0 (i_box x)) raw_items) [] [] of
        (current_line, lines) \<Rightarrow>
          if current_line \<noteq> [] then lines @ [merge_items current_line '' ''] else lines)"

subsection \<open>Blocks\<close>

definition newline :: string where
  "newline = [CHR 0x0A]"

definition height :: "item \<Rightarrow> rat" where
  "height l = y1 (i_box l) - y0 (i_box l)"

definition global_avg_h :: "item list \<Rightarrow> rat" where
  "global_avg_h lines =
     (if lines \<noteq> [] then sum_list (map height lines) / of_nat (length lines) else 20)"

definition center :: "box \<Rightarrow> rat" where
  "center b = x0 b + (x1 b - x0 b) / 2"

definition block_crosses_barrier :: "rat option \<Rightarrow> item list \<Rightarrow> item \<Rightarrow> bool" where
  "block_crosses_barrier split_x current_block_lines line =
     (if truthy split_x then
        (let s = the split_x;
             block_box = merge_boxes (map i_box current_block_lines);
             block_center = center block_box;
             line_center = center (i_box line);
             block_side = (if block_center < s then ''L'' else ''R'');
             line_side = (if line_center < s then ''L'' else ''R'')
         in block_side \<noteq> line_side)
      else False)"

definition block_merge :: "rat option \<Rightarrow> rat \<Rightarrow> item list \<Rightarrow> item \<Rightarrow> bool" where
  "block_merge split_x avg_h current_block_lines line =
     (let last_line = last current_block_lines;
          v_gap = y0 (i_box line) - y1 (i_box last_line);
          h_prev = y1 (i_box last_line) - y0 (i_box last_line);
          h_curr = y1 (i_box line) - y0 (i_box line);
          dominant_h = max h_prev h_curr;
          multiplier = (if dominant_h < avg_h then 15 / 10 else 2);
          threshold = max (dominant_h * multiplier) 5;
          is_close = v_gap < threshold;
          left_diff = \<bar>x0 (i_box line) - x0 (i_box last_line)\<bar>;
          right_diff = \<bar>x1 (i_box line) - x1 (i_box last_line)\<bar>;
          is_aligned = (left_diff < 80 \<or> right_diff < 80)
      in is_close \<and> is_aligned \<and> \<not> block_crosses_barrier split_x current_block_lines line)"

fun blocks_loop :: "rat option \<Rightarrow> rat \<Rightarrow> item list \<Rightarrow> item list \<Rightarrow> item list \<Rightarrow> item list \<times> item list" where
  "blocks_loop split_x avg_h [] current_block_lines blocks = (current_block_lines, blocks)"
| "blocks_loop split_x avg_h (line # rest) current_block_lines blocks =
     (if current_block_lines = [] then blocks_loop split_x avg_h rest [line] blocks
      else if block_merge split_x avg_h current_block_lines line
        then blocks_loop split_x avg_h rest (current_block_lines @ [line]) blocks
      else blocks_loop split_x avg_h rest [line]
             (blocks @ [merge_items current_block_lines newline]))"

definition cluster_vertical :: "item list \<Rightarrow> rat option \<Rightarrow> item list" where
  "cluster_vertical lines split_x =
     (if lines = [] then []
      else
        (let sorted_lines = sort_key (\<lambda>x. y0 (i_box x)) lines;
             avg_h = global_avg_h sorted_lines
         in case blocks_loop split_x avg_h sorted_lines [] [] of
              (current_block_lines, blocks) \<Rightarrow>
                if current_block_lines \<noteq> []
                then blocks @ [merge_items current_block_lines newline] else blocks))"

subsection \<open>The page pipeline\<close>

definition process_page :: "item list \<Rightarrow> rat \<Rightarrow> rat \<Rightarrow> error + (item list \<times> rat option)" where
  "process_page raw_items page_width page_height =
     (if raw_items = [] then Inr ([], None)
      else
        (case find_split_x (map i_box raw_items) page_width page_height of
           Inl e \<Rightarrow> Inl e
         | Inr split_x \<Rightarrow>
             Inr (cluster_vertical (cluster_lines raw_items split_x) split_x, split_x)))"

section \<open>Constituents of lines and blocks\<close>

text \<open>
  Both clustering loops have the same shape: they walk a sorted list, extend the current
  group while a merge test holds and close it otherwise. \<open>groups_loop\<close> is that loop
  keeping each closed group instead of merging it, so that the constituents of every
  Line and Block can be named; \<open>cluster_lines_groups\<close> and \<open>cluster_vertical_groups\<close>
  below show that the Lines and Blocks of the code are exactly the merged groups.
\<close>

fun groups_loop :: "('a list \<Rightarrow> 'a \<Rightarrow> bool) \<Rightarrow> 'a list \<Rightarrow> 'a list \<Rightarrow> 'a list list \<Rightarrow> 'a list \<times> 'a list list" where
  "groups_loop P [] cur gs = (cur, gs)"
| "groups_loop P (x # xs) cur gs =
     (if cur = [] then groups_loop P xs [x] gs
      else if P cur x then groups_loop P xs (cur @ [x]) gs
      else groups_loop P xs [x] (gs @ [cur]))"

definition groups :: "('a list \<Rightarrow> 'a \<Rightarrow> bool) \<Rightarrow> 'a list \<Rightarrow> 'a list list" where
  "groups P xs =
     (case groups_loop P xs [] [] of (cur, gs) \<Rightarrow> if cur \<noteq> [] then gs @ [cur] else gs)"

definition line_groups :: "item list \<Rightarrow> rat option \<Rightarrow> item list list" where
  "line_groups raw_items split_x =
     groups (line_merge split_x) (sort_key (\<lambda>x. y0 (i_box x)) raw_items)"

definition block_groups :: "item list \<Rightarrow> rat option \<Rightarrow> item list list" where
  "block_groups lines split_x =
     (let sorted_lines = sort_key (\<lambda>x. y0 (i_box x)) lines
      in groups (block_merge split_x (global_avg_h sorted_lines)) sorted_lines)"

section \<open>Specification-level notions\<close>

text \<open>A fragment or line written out: text and the four box coordinates.\<close>

definition mk_item :: "string \<Rightarrow> rat \<Rightarrow> rat \<Rightarrow> rat \<Rightarrow> rat \<Rightarrow> item" where
  "mk_item t a b c d = \<lparr>i_text = t, i_box = \<lparr>x0 = a, y0 = b, x1 = c, y1 = d\<rparr>\<rparr>"

text \<open>
  The union box of the specification: \<open>(min x0, min y0, max x1, max y1)\<close> over the
  constituent boxes, and what it means for a box to lie inside another.
\<close>

definition bounding_box :: "box list \<Rightarrow> box" where
  "bounding_box boxes =
     \<lparr>x0 = Min (x0 ` set boxes), y0 = Min (y0 ` set boxes),
      x1 = Max (x1 ` set boxes), y1 = Max (y1 ` set boxes)\<rparr>"

definition inside :: "box \<Rightarrow> box \<Rightarrow> bool" where
  "inside b m = (x0 m \<le> x0 b \<and> y0 m \<le> y0 b \<and> x1 b \<le> x1 m \<and> y1 b \<le> y1 m)"

text \<open>
  The overlap ratio in the words of the specification: the overlap of the two vertical
  extents over the smaller height, and 0 when that height is 0.
\<close>

definition spec_overlap_ratio :: "box \<Rightarrow> box \<Rightarrow> rat" where
  "spec_overlap_ratio l c =
     (let min_height = min (y1 l - y0 l) (y1 c - y0 c)
      in if min_height = 0 then 0
         else max 0 (min (y1 l) (y1 c) - max (y0 l) (y0 c)) / min_height)"














section \<open>The loops and their groups\<close>

lemma lines_loop_groups:
  "lines_loop s xs cur (map (\<lambda>g. merge_items g '' '') gs) =
     (case groups_loop (line_merge s) xs cur gs of
        (c, gs') \<Rightarrow> (c, map (\<lambda>g. merge_items g '' '') gs'))"
proof (induction xs arbitrary: cur gs)
  case Nil
  show ?case by simp
next
  case (Cons x xs)
  have "lines_loop s xs [x] (map (\<lambda>g. merge_items g '' '') gs @ [merge_items cur '' ''])
         = (case groups_loop (line_merge s) xs [x] (gs @ [cur]) of
              (c, gs') \<Rightarrow> (c, map (\<lambda>g. merge_items g '' '') gs'))"
    using Cons.IH [of "[x]" "gs @ [cur]"] by simp
  then show ?case using Cons.IH by simp
qed

lemma blocks_loop_groups:
  "blocks_loop s h xs cur (map (\<lambda>g. merge_items g newline) gs) =
     (case groups_loop (block_merge s h) xs cur gs of
        (c, gs') \<Rightarrow> (c, map (\<lambda>g. merge_items g newline) gs'))"
proof (induction xs arbitrary: cur gs)
  case Nil
  show ?case by simp
next
  case (Cons x xs)
  have "blocks_loop s h xs [x] (map (\<lambda>g. merge_items g newline) gs @ [merge_items cur newline])
         = (case groups_loop (block_merge s h) xs [x] (gs @ [cur]) of
              (c, gs') \<Rightarrow> (c, map (\<lambda>g. merge_items g newline) gs'))"
    using Cons.IH [of "[x]" "gs @ [cur]"] by simp
  then show ?case using Cons.IH by simp
qed

lemma cluster_lines_groups:
  "cluster_lines raw_items split_x = map (\<lambda>g. merge_items g '' '') (line_groups raw_items split_x)"
  using lines_loop_groups [of split_x "sort_key (\<lambda>x. y0 (i_box x)) raw_items" "[]" "[]"]
  by (simp add: cluster_lines_def line_groups_def groups_def split: prod.splits)

lemma groups_Nil: "groups P [] = []"
  by (simp add: groups_def)

lemma cluster_vertical_groups:
  "cluster_vertical lines split_x = map (\<lambda>g. merge_items g newline) (block_groups lines split_x)"
proof (cases "lines = []")
  case True
  then show ?thesis by (simp add: cluster_vertical_def block_groups_def groups_Nil)
next
  case False
  then show ?thesis
    using blocks_loop_groups [of split_x "global_avg_h (sort_key (\<lambda>x. y0 (i_box x)) lines)"
        "sort_key (\<lambda>x. y0 (i_box x)) lines" "[]" "[]"]
    by (simp add: cluster_vertical_def block_groups_def groups_def Let_def split: prod.splits)
qed


lemma groups_loop_concat:
  "groups_loop P xs cur gs = (c, gs') \<Longrightarrow> concat gs' @ c = concat gs @ cur @ xs"
proof (induction xs arbitrary: cur gs)
  case Nil
  then show ?case by simp
next
  case (Cons x xs)
  show ?case
  proof (cases "cur = []")
    case True
    then have "groups_loop P xs [x] gs = (c, gs')" using Cons.prems by simp
    from Cons.IH [OF this] show ?thesis using True by simp
  next
    case ne: False
    show ?thesis
    proof (cases "P cur x")
      case True
      then have "groups_loop P xs (cur @ [x]) gs = (c, gs')" using Cons.prems ne by simp
      from Cons.IH [OF this] show ?thesis by simp
    next
      case False
      then have "groups_loop P xs [x] (gs @ [cur]) = (c, gs')" using Cons.prems ne by simp
      from Cons.IH [OF this] show ?thesis by simp
    qed
  qed
qed


lemma groups_loop_inv:
  assumes one: "\<And>x. x \<in> S \<Longrightarrow> I [x]"
    and snoc: "\<And>g x. g \<noteq> [] \<Longrightarrow> I g \<Longrightarrow> P g x \<Longrightarrow> x \<in> S \<Longrightarrow> I (g @ [x])"
    and fin: "\<And>g. g \<noteq> [] \<Longrightarrow> I g \<Longrightarrow> Q g"
  shows "groups_loop P xs cur gs = (c, gs') \<Longrightarrow> set xs \<subseteq> S \<Longrightarrow> (cur \<noteq> [] \<longrightarrow> I cur)
          \<Longrightarrow> (\<forall>g\<in>set gs. Q g) \<Longrightarrow> (c \<noteq> [] \<longrightarrow> I c) \<and> (\<forall>g\<in>set gs'. Q g)"
proof (induction xs arbitrary: cur gs)
  case Nil
  then show ?case by simp
next
  case (Cons x xs)
  have xS: "x \<in> S" and sub: "set xs \<subseteq> S" using Cons.prems(2) by simp_all
  show ?case
  proof (cases "cur = []")
    case True
    then have r: "groups_loop P xs [x] gs = (c, gs')" using Cons.prems(1) by simp
    have i: "[x] \<noteq> [] \<longrightarrow> I [x]" using one [OF xS] by simp
    show ?thesis by (rule Cons.IH [OF r sub i Cons.prems(4)])
  next
    case ne: False
    then have Ic: "I cur" using Cons.prems(3) by simp
    show ?thesis
    proof (cases "P cur x")
      case True
      then have r: "groups_loop P xs (cur @ [x]) gs = (c, gs')" using Cons.prems(1) ne by simp
      have i: "cur @ [x] \<noteq> [] \<longrightarrow> I (cur @ [x])" using snoc [OF ne Ic True xS] by simp
      show ?thesis by (rule Cons.IH [OF r sub i Cons.prems(4)])
    next
      case False
      then have r: "groups_loop P xs [x] (gs @ [cur]) = (c, gs')" using Cons.prems(1) ne by simp
      have i: "[x] \<noteq> [] \<longrightarrow> I [x]" using one [OF xS] by simp
      have q: "\<forall>g\<in>set (gs @ [cur]). Q g" using Cons.prems(4) fin [OF ne Ic] by simp
      show ?thesis by (rule Cons.IH [OF r sub i q])
    qed
  qed
qed

lemma groups_inv:
  assumes one: "\<And>x. x \<in> set xs \<Longrightarrow> I [x]"
    and snoc: "\<And>g x. g \<noteq> [] \<Longrightarrow> I g \<Longrightarrow> P g x \<Longrightarrow> x \<in> set xs \<Longrightarrow> I (g @ [x])"
    and g: "g \<in> set (groups P xs)"
  shows "g \<noteq> [] \<and> I g"
proof -
  obtain c gs' where r: "groups_loop P xs [] [] = (c, gs')" by (cases "groups_loop P xs [] []")
  have "(c \<noteq> [] \<longrightarrow> I c) \<and> (\<forall>g\<in>set gs'. g \<noteq> [] \<and> I g)"
  proof (rule groups_loop_inv [OF _ _ _ r, where S = "set xs"])
    show "\<And>x. x \<in> set xs \<Longrightarrow> I [x]" by (rule one)
    show "\<And>g x. g \<noteq> [] \<Longrightarrow> I g \<Longrightarrow> P g x \<Longrightarrow> x \<in> set xs \<Longrightarrow> I (g @ [x])" by (rule snoc)
    show "\<And>g. g \<noteq> [] \<Longrightarrow> I g \<Longrightarrow> g \<noteq> [] \<and> I g" by simp
    show "set xs \<subseteq> set xs" by simp
    show "[] \<noteq> [] \<longrightarrow> I []" by simp
    show "\<forall>g\<in>set []. g \<noteq> [] \<and> I g" by simp
  qed
  moreover have "g \<in> set gs' \<or> (c \<noteq> [] \<and> g = c)"
    using g unfolding groups_def r by (cases "c = []") auto
  ultimately show ?thesis by blast
qed

lemma concat_groups: "concat (groups P xs) = xs"
proof -
  obtain c gs' where r: "groups_loop P xs [] [] = (c, gs')" by (cases "groups_loop P xs [] []")
  from groups_loop_concat [OF r] have "concat gs' @ c = xs" by simp
  then show ?thesis unfolding groups_def r by (cases "c = []") auto
qed

lemma groups_nonempty: "g \<in> set (groups P xs) \<Longrightarrow> g \<noteq> []"
proof -
  assume a: "g \<in> set (groups P xs)"
  have "g \<noteq> [] \<and> True"
    by (rule groups_inv [where I = "\<lambda>_. True" and P = P and xs = xs]) (simp_all add: a)
  then show ?thesis by simp
qed



lemma find_gaps_empty_histogram: "find_gaps (replicate 400 False) = [(80, 320)]"
  by code_simp

section \<open>Empty input\<close>

text \<open>
  C3, counterexample: on an empty list of boxes the detector finds every bin of the
  search window unoccupied, one gap of 240 bins, and returns the middle of the page
  (300 on a page 600 wide), not none.
\<close>

theorem detector_empty_counterexample: "find_split_x [] 600 800 = Inr (Some 300)"
  by (simp add: find_split_x_def valid_boxes_def build_histogram_def find_gaps_empty_histogram
      bins_def gap_width_def)

text \<open>
  C3, as amended: it is the page pipeline that answers an empty fragment list with no
  blocks and no split, by its guard and without calling the detector; the detector itself,
  applied to an empty list of boxes, returns half the page width.
\<close>

theorem empty_input:
  "process_page [] page_width page_height = Inr ([], None)
   \<and> find_split_x [] page_width page_height = Inr (Some (page_width / 2))"
  by (simp add: process_page_def find_split_x_def valid_boxes_def build_histogram_def
      find_gaps_empty_histogram bins_def gap_width_def)

section \<open>Union boxes\<close>

lemma fold_min_Min: "fold min (map f bs) (f b) = Min (f ` set (b # bs))"
  for f :: "'a \<Rightarrow> rat"
  using Min.set_eq_fold [of "f b" "map f bs"] by simp

lemma fold_max_Max: "fold max (map f bs) (f b) = Max (f ` set (b # bs))"
  for f :: "'a \<Rightarrow> rat"
  using Max.set_eq_fold [of "f b" "map f bs"] by simp

lemma merge_boxes_bounding: "boxes \<noteq> [] \<Longrightarrow> merge_boxes boxes = bounding_box boxes"
proof (cases boxes)
  case Nil
  assume "boxes \<noteq> []"
  with Nil show ?thesis by simp
next
  case (Cons b bs)
  show ?thesis
    unfolding Cons merge_boxes_def bounding_box_def list.case fold_min_Min fold_max_Max ..
qed

lemma bounding_box_inside: "b \<in> set boxes \<Longrightarrow> inside b (bounding_box boxes)"
  by (simp add: inside_def bounding_box_def)

lemma merge_items_box: "i_box (merge_items items join_char) = merge_boxes (map i_box items)"
  by (simp add: merge_items_def)

lemma merged_groups_boxes:
  assumes "\<forall>g\<in>set gs. g \<noteq> []"
  shows "list_all2 (\<lambda>l g. g \<noteq> [] \<and> i_box l = bounding_box (map i_box g))
           (map (\<lambda>g. merge_items g sep) gs) gs"
  using assms
  by (simp add: list_all2_map1 list_all2_same merge_items_box merge_boxes_bounding)

text \<open>
  C7: the merged box of a non-empty list of boxes is exactly
  \<open>(min x0, min y0, max x1, max y1)\<close> over them, so every constituent box lies inside it;
  and the box of every Line and of every Block returned by the clustering is that union
  box of its (non-empty) group of constituents.
\<close>

theorem merged_box_is_union:
  "(boxes \<noteq> [] \<longrightarrow>
      merge_boxes boxes = bounding_box boxes \<and> (\<forall>b\<in>set boxes. inside b (merge_boxes boxes)))
   \<and> list_all2 (\<lambda>l g. g \<noteq> [] \<and> i_box l = bounding_box (map i_box g))
        (cluster_lines raw_items split_x) (line_groups raw_items split_x)
   \<and> list_all2 (\<lambda>b g. g \<noteq> [] \<and> i_box b = bounding_box (map i_box g))
        (cluster_vertical lines split_x) (block_groups lines split_x)"
proof (intro conjI impI)
  assume ne: "boxes \<noteq> []"
  show "merge_boxes boxes = bounding_box boxes" by (rule merge_boxes_bounding [OF ne])
  show "\<forall>b\<in>set boxes. inside b (merge_boxes boxes)"
    using bounding_box_inside by (simp add: merge_boxes_bounding [OF ne])
next
  have "\<forall>g\<in>set (line_groups raw_items split_x). g \<noteq> []"
    unfolding line_groups_def using groups_nonempty by blast
  then show "list_all2 (\<lambda>l g. g \<noteq> [] \<and> i_box l = bounding_box (map i_box g))
        (cluster_lines raw_items split_x) (line_groups raw_items split_x)"
    unfolding cluster_lines_groups by (rule merged_groups_boxes)
next
  have "\<forall>g\<in>set (block_groups lines split_x). g \<noteq> []"
    unfolding block_groups_def Let_def using groups_nonempty by blast
  then show "list_all2 (\<lambda>b g. g \<noteq> [] \<and> i_box b = bounding_box (map i_box g))
        (cluster_vertical lines split_x) (block_groups lines split_x)"
    unfolding cluster_vertical_groups by (rule merged_groups_boxes)
qed


text \<open>An instance of the union box: two boxes, and a line of two fragments.\<close>

theorem merged_box_is_union_witness:
  "[\<lparr>x0 = 10, y0 = 10, x1 = 80, y1 = 25\<rparr>, \<lparr>x0 = 320, y0 = 8, x1 = 400, y1 = 25\<rparr>] \<noteq> []
   \<and> bounding_box [\<lparr>x0 = 10, y0 = 10, x1 = 80, y1 = 25\<rparr>, \<lparr>x0 = 320, y0 = 8, x1 = 400, y1 = 25\<rparr>]
       = \<lparr>x0 = 10, y0 = 8, x1 = 400, y1 = 25\<rparr>
   \<and> inside \<lparr>x0 = 10, y0 = 10, x1 = 80, y1 = 25\<rparr> \<lparr>x0 = 10, y0 = 8, x1 = 400, y1 = 25\<rparr>
   \<and> inside \<lparr>x0 = 320, y0 = 8, x1 = 400, y1 = 25\<rparr> \<lparr>x0 = 10, y0 = 8, x1 = 400, y1 = 25\<rparr>
   \<and> list_all2 (\<lambda>l g. g \<noteq> [] \<and> i_box l = bounding_box (map i_box g))
        (cluster_lines [mk_item ''a'' 0 0 10 10, mk_item ''b'' 15 0 30 10] None)
        (line_groups [mk_item ''a'' 0 0 10 10, mk_item ''b'' 15 0 30 10] None)"
proof -
  let ?bs = "[\<lparr>x0 = 10, y0 = 10, x1 = 80, y1 = 25\<rparr>, \<lparr>x0 = 320, y0 = 8, x1 = 400, y1 = (25::rat)\<rparr>]"
  have ne: "?bs \<noteq> []" by simp
  have m: "merge_boxes ?bs = \<lparr>x0 = 10, y0 = 8, x1 = 400, y1 = 25\<rparr>"
    by (simp add: merge_boxes_def)
  note u = merged_box_is_union [of ?bs "[mk_item ''a'' 0 0 10 10, mk_item ''b'' 15 0 30 10]" None "[]"]
  from u ne have "merge_boxes ?bs = bounding_box ?bs" by blast
  then have 1: "bounding_box ?bs = \<lparr>x0 = 10, y0 = 8, x1 = 400, y1 = 25\<rparr>" using m by simp
  from u ne have "\<forall>b\<in>set ?bs. inside b (merge_boxes ?bs)" by blast
  then have 2: "inside \<lparr>x0 = 10, y0 = 10, x1 = 80, y1 = 25\<rparr> \<lparr>x0 = 10, y0 = 8, x1 = 400, y1 = 25\<rparr>"
    and 3: "inside \<lparr>x0 = 320, y0 = 8, x1 = 400, y1 = 25\<rparr> \<lparr>x0 = 10, y0 = 8, x1 = 400, y1 = 25\<rparr>"
    unfolding m by simp_all
  from u have 4: "list_all2 (\<lambda>l g. g \<noteq> [] \<and> i_box l = bounding_box (map i_box g))
        (cluster_lines [mk_item ''a'' 0 0 10 10, mk_item ''b'' 15 0 30 10] None)
        (line_groups [mk_item ''a'' 0 0 10 10, mk_item ''b'' 15 0 30 10] None)" by blast
  show ?thesis using ne 1 2 3 4 by blast
qed

section \<open>Text of a block\<close>

text \<open>
  C2: a paragraph whose first line is indented. The two lines are merged into one block in
  vertical order, \<open>first\<close> then \<open>second\<close>, but \<^verbatim>\<open>_merge_items\<close> sorts the lines of the
  block by their left edge before joining them, so the text of the block has the second
  line first.
\<close>

theorem block_text_order_failure:
  "process_page [mk_item ''first'' 50 200 300 210, mk_item ''second'' 10 212 300 222] 600 800
     = Inr ([mk_item (''second'' @ newline @ ''first'') 10 200 300 222], Some 390)
   \<and> block_groups [mk_item ''first'' 50 200 300 210, mk_item ''second'' 10 212 300 222] (Some 390)
     = [[mk_item ''first'' 50 200 300 210, mk_item ''second'' 10 212 300 222]]"
  by code_simp

section \<open>The merge rule of line clustering\<close>

lemma overlap_ratio_decision:
  "(overlap_ratio l c > 4 / 10) = (spec_overlap_ratio l c > 4 / 10)"
proof -
  let ?m = "min (y1 l - y0 l) (y1 c - y0 c)"
  let ?o = "max 0 (min (y1 l) (y1 c) - max (y0 l) (y0 c))"
  have o: "0 \<le> ?o" by simp
  consider "?m > 0" | "?m = 0" | "?m < 0" by linarith
  then show ?thesis
  proof cases
    case 1
    then show ?thesis by (simp add: overlap_ratio_def spec_overlap_ratio_def Let_def)
  next
    case 2
    then show ?thesis by (simp add: overlap_ratio_def spec_overlap_ratio_def Let_def)
  next
    case 3
    have "?o / ?m \<le> 0" using o 3 by (simp add: divide_nonneg_neg)
    then have "\<not> ?o / ?m > 4 / 10" by linarith
    moreover have "overlap_ratio l c = 0" using 3 by (simp add: overlap_ratio_def Let_def)
    moreover have "spec_overlap_ratio l c = ?o / ?m"
      using 3 by (simp add: spec_overlap_ratio_def Let_def)
    ultimately show ?thesis by simp
  qed
qed

lemma overlap_ratio_zero_height:
  "min (y1 l - y0 l) (y1 c - y0 c) = 0 \<Longrightarrow> overlap_ratio l c = 0"
  by (simp add: overlap_ratio_def Let_def)

text \<open>
  C5: in the loop of line clustering, with a non-empty current line, the candidate is
  appended to the current line exactly when its vertical overlap ratio with the last
  fragment of the line exceeds 0.4, its horizontal gap to that fragment is below 50 and the
  code flags no barrier crossing; otherwise the current line is closed and the candidate
  starts a new one. When the smaller of the two heights is 0 the overlap ratio is 0.
\<close>

theorem line_merge_rule:
  assumes "current_line \<noteq> []"
  shows "lines_loop split_x (item # rest) current_line lines =
           (if spec_overlap_ratio (i_box (last current_line)) (i_box item) > 4 / 10
               \<and> x0 (i_box item) - x1 (i_box (last current_line)) < 50
               \<and> \<not> line_crosses_barrier split_x (i_box (last current_line)) (i_box item)
            then lines_loop split_x rest (current_line @ [item]) lines
            else lines_loop split_x rest [item] (lines @ [merge_items current_line '' '']))
         \<and> (min (height (last current_line)) (height item) = 0
              \<longrightarrow> overlap_ratio (i_box (last current_line)) (i_box item) = 0)"
proof
  have "line_merge split_x current_line item =
          (spec_overlap_ratio (i_box (last current_line)) (i_box item) > 4 / 10
           \<and> x0 (i_box item) - x1 (i_box (last current_line)) < 50
           \<and> \<not> line_crosses_barrier split_x (i_box (last current_line)) (i_box item))"
    unfolding line_merge_def Let_def overlap_ratio_decision ..
  then show "lines_loop split_x (item # rest) current_line lines =
           (if spec_overlap_ratio (i_box (last current_line)) (i_box item) > 4 / 10
               \<and> x0 (i_box item) - x1 (i_box (last current_line)) < 50
               \<and> \<not> line_crosses_barrier split_x (i_box (last current_line)) (i_box item)
            then lines_loop split_x rest (current_line @ [item]) lines
            else lines_loop split_x rest [item] (lines @ [merge_items current_line '' '']))"
    using assms by simp
  show "min (height (last current_line)) (height item) = 0
              \<longrightarrow> overlap_ratio (i_box (last current_line)) (i_box item) = 0"
    using overlap_ratio_zero_height by (simp add: height_def)
qed

text \<open>
  An instance: \<open>b\<close> overlaps \<open>a\<close> fully and starts 5 units after it, so it joins the
  line; \<open>c\<close> starts 90 units after \<open>b\<close> and closes it. A zero-height fragment has ratio 0.
\<close>

theorem line_merge_rule_witness:
  "[mk_item ''a'' 0 0 10 10] \<noteq> []
   \<and> lines_loop (Some 100) [mk_item ''b'' 15 0 30 10, mk_item ''c'' 120 0 130 10] [mk_item ''a'' 0 0 10 10] []
       = ([mk_item ''c'' 120 0 130 10], [mk_item ''a b'' 0 0 30 10])
   \<and> overlap_ratio (i_box (mk_item ''a'' 0 0 10 10)) (i_box (mk_item ''z'' 15 5 30 5)) = 0"
proof -
  have ne: "[mk_item ''a'' 0 0 10 10] \<noteq> []" by simp
  have z: "min (height (last [mk_item ''a'' 0 0 10 10])) (height (mk_item ''z'' 15 5 30 5)) = 0"
    by (simp add: height_def mk_item_def)
  have "lines_loop (Some 100) [mk_item ''b'' 15 0 30 10, mk_item ''c'' 120 0 130 10] [mk_item ''a'' 0 0 10 10] []
       = ([mk_item ''c'' 120 0 130 10], [mk_item ''a b'' 0 0 30 10])"
    using line_merge_rule [OF ne, of "Some 100" "mk_item ''b'' 15 0 30 10" "[mk_item ''c'' 120 0 130 10]" "[]"]
    by code_simp
  moreover have "overlap_ratio (i_box (mk_item ''a'' 0 0 10 10)) (i_box (mk_item ''z'' 15 5 30 5)) = 0"
    using line_merge_rule [OF ne, of "Some 100" "mk_item ''z'' 15 5 30 5" "[]" "[]"] z by simp
  ultimately show ?thesis using ne by simp
qed

section \<open>The merge rule of block clustering\<close>








section \<open>The barrier\<close>













section \<open>Order of the result\<close>

lemma sorted_group_mins:
  fixes f :: "'a \<Rightarrow> rat"
  assumes "sorted (map f (concat gs))" and "\<forall>g\<in>set gs. g \<noteq> []"
  shows "sorted (map (\<lambda>g. Min (f ` set g)) gs)"
  using assms
proof (induction gs)
  case Nil
  show ?case by simp
next
  case (Cons g gs)
  have ne: "g \<noteq> []" using Cons.prems(2) by simp
  have srt: "sorted (map f g @ map f (concat gs))" using Cons.prems(1) by simp
  then have tail: "sorted (map f (concat gs))" by (simp add: sorted_append)
  have cross: "\<forall>x\<in>set g. \<forall>y\<in>set (concat gs). f x \<le> f y"
    using srt by (simp add: sorted_append)
  have IH: "sorted (map (\<lambda>g. Min (f ` set g)) gs)"
    using Cons.IH [OF tail] Cons.prems(2) by simp
  have "\<forall>h\<in>set gs. Min (f ` set g) \<le> Min (f ` set h)"
  proof
    fix h assume h: "h \<in> set gs"
    then have hne: "h \<noteq> []" using Cons.prems(2) by simp
    have "Min (f ` set h) \<in> f ` set h" using hne by (intro Min_in) simp_all
    then obtain y where y: "y \<in> set h" and my: "f y = Min (f ` set h)" by auto
    have yc: "y \<in> set (concat gs)" using y h by auto
    obtain x where x: "x \<in> set g" using ne by (cases g) auto
    have "Min (f ` set g) \<le> f x" using x by (intro Min_le) simp_all
    also have "f x \<le> f y" using cross x yc by blast
    finally show "Min (f ` set g) \<le> Min (f ` set h)" using my by simp
  qed
  then show ?case using IH by simp
qed

lemma merged_y0:
  assumes "g \<noteq> []"
  shows "y0 (i_box (merge_items g sep)) = Min ((\<lambda>x. y0 (i_box x)) ` set g)"
proof -
  have "map i_box g \<noteq> []" using assms by simp
  then have "merge_boxes (map i_box g) = bounding_box (map i_box g)"
    by (rule merge_boxes_bounding)
  then show ?thesis by (simp add: merge_items_box bounding_box_def image_image)
qed

lemma merged_groups_sorted:
  assumes "sorted (map (\<lambda>x. y0 (i_box x)) (concat gs))" and "\<forall>g\<in>set gs. g \<noteq> []"
  shows "sorted (map (\<lambda>l. y0 (i_box l)) (map (\<lambda>g. merge_items g sep) gs))"
proof -
  have eq: "map ((\<lambda>l. y0 (i_box l)) \<circ> (\<lambda>g. merge_items g sep)) gs
          = map (\<lambda>g. Min ((\<lambda>x. y0 (i_box x)) ` set g)) gs"
    using assms(2) by (intro map_cong) (simp_all add: merged_y0)
  show ?thesis unfolding map_map eq by (rule sorted_group_mins [OF assms])
qed

text \<open>
  C8: the Lines returned by line clustering are in non-decreasing order of the \<open>y0\<close> of
  their boxes, and so are the Blocks returned by block clustering, for every input and
  every optional split.
\<close>

theorem top_to_bottom:
  "sorted (map (\<lambda>l. y0 (i_box l)) (cluster_lines raw_items split_x))
   \<and> sorted (map (\<lambda>b. y0 (i_box b)) (cluster_vertical lines split_x))"
proof
  let ?k = "\<lambda>x. y0 (i_box x)"
  have "sorted (map ?k (concat (line_groups raw_items split_x)))"
    unfolding line_groups_def concat_groups by (rule sorted_sort_key)
  moreover have "\<forall>g\<in>set (line_groups raw_items split_x). g \<noteq> []"
    unfolding line_groups_def using groups_nonempty by blast
  ultimately show "sorted (map ?k (cluster_lines raw_items split_x))"
    unfolding cluster_lines_groups by (rule merged_groups_sorted)
next
  let ?k = "\<lambda>x. y0 (i_box x)"
  have "sorted (map ?k (concat (block_groups lines split_x)))"
    unfolding block_groups_def Let_def concat_groups by (rule sorted_sort_key)
  moreover have "\<forall>g\<in>set (block_groups lines split_x). g \<noteq> []"
    unfolding block_groups_def Let_def using groups_nonempty by blast
  ultimately show "sorted (map ?k (cluster_vertical lines split_x))"
    unfolding cluster_vertical_groups by (rule merged_groups_sorted)
qed

text \<open>An instance: three fragments given out of order come back top to bottom.\<close>

theorem top_to_bottom_witness:
  "sorted (map (\<lambda>l. y0 (i_box l))
     (cluster_lines [mk_item ''Title'' 10 30 90 45, mk_item ''Name'' 10 10 80 25, mk_item ''Skills'' 320 10 400 25] None))
   \<and> cluster_lines [mk_item ''Title'' 10 30 90 45, mk_item ''Name'' 10 10 80 25, mk_item ''Skills'' 320 10 400 25] None
      = [mk_item ''Name'' 10 10 80 25, mk_item ''Skills'' 320 10 400 25, mk_item ''Title'' 10 30 90 45]"
proof -
  have "cluster_lines [mk_item ''Title'' 10 30 90 45, mk_item ''Name'' 10 10 80 25, mk_item ''Skills'' 320 10 400 25] None
      = [mk_item ''Name'' 10 10 80 25, mk_item ''Skills'' 320 10 400 25, mk_item ''Title'' 10 30 90 45]"
    by code_simp
  moreover have "sorted (map (\<lambda>l. y0 (i_box l))
     (cluster_lines [mk_item ''Title'' 10 30 90 45, mk_item ''Name'' 10 10 80 25, mk_item ''Skills'' 320 10 400 25] None))"
    using top_to_bottom [of "[mk_item ''Title'' 10 30 90 45, mk_item ''Name'' 10 10 80 25, mk_item ''Skills'' 320 10 400 25]" None "[]"]
    by (rule conjunct1)
  ultimately show ?thesis by blast
qed

section \<open>The gap search\<close>















section \<open>The split detector\<close>








end
